theory Spec2Isabelle
  imports Main "HOL-Library.AList"
begin

section \<open>The draggable list with ad-hoc grouping (DraggableList.tsx)\<close>

text \<open>
  The component \<open>DraggableList\<close> keeps seven \<open>useState\<close> slots and changes them in its
  event handlers. The embedding is one record for the slots and one function per handler,
  taking the state of the render in which the handler was created and returning the state
  of the next render. React applies the queued updater functions of one handler in the
  order of the calls, and every handler runs to completion before the next event, so
  each handler is a sequential state transformer.
\<close>

subsection \<open>Data model\<close>

text \<open>\<open>interface Item { id: string; content: string }\<close>. The field \<open>id\<close> is written
  \<open>id'\<close>, since \<open>id\<close> is the identity function of HOL.\<close>

record Item =
  id' :: string
  content :: string

text \<open>
  \<open>interface GroupedItems { [key: string]: string[] }\<close>: a JavaScript object used as a
  dictionary. It is an association list in insertion order: \<open>{...prev, [k]: v}\<close> is
  \<open>AList.update k v prev\<close> (the value of an existing key is replaced in place, a new key
  goes to the end), \<open>delete obj[k]\<close> is \<open>AList.delete k obj\<close>, \<open>obj[k]\<close> is
  \<open>map_of obj k\<close> for an own key and \<open>Object.values(obj)\<close> is \<open>map snd obj\<close>. The
  keys the component ever writes are of the form \<open>group-<digits>\<close>, so the integer-key
  ordering of JavaScript objects plays no part.
\<close>

type_synonym GroupedItems = "(string \<times> string list) list"

text \<open>
  The object is created by an object literal, so its prototype is \<open>Object.prototype\<close> and
  a property read \<open>obj[k]\<close> that finds no own key continues there. These are the names
  it finds; each yields a function, except \<open>__proto__\<close>, which yields the prototype
  object itself. All of them are truthy, none is iterable and none has a \<open>map\<close> method.
\<close>

definition objectPrototypeKeys :: "string list" where
  "objectPrototypeKeys =
     [''constructor'', ''__defineGetter__'', ''__defineSetter__'', ''hasOwnProperty'',
      ''__lookupGetter__'', ''__lookupSetter__'', ''isPrototypeOf'',
      ''propertyIsEnumerable'', ''toString'', ''valueOf'', ''__proto__'',
      ''toLocaleString'']"

text \<open>The value of a property read \<open>groupedItems[k]\<close>: the member array of an own key,
  an inherited value, or \<open>undefined\<close>.\<close>

datatype property = Members "string list" | Inherited | Undefined

definition getProperty :: "GroupedItems \<Rightarrow> string \<Rightarrow> property" where
  "getProperty g k =
     (case map_of g k of
        Some ms \<Rightarrow> Members ms
      | None \<Rightarrow> if k \<in> set objectPrototypeKeys then Inherited else Undefined)"

text \<open>\<open>interface ItemToGroup { dragged: string; target: string }\<close>\<close>

record ItemToGroup =
  dragged :: string
  target :: string

text \<open>The \<open>useState\<close> slots of \<open>DraggableList\<close>, in the order of the source;
  \<open>string | null\<close> and \<open>ItemToGroup | null\<close> are options.\<close>

record state =
  items :: "Item list"
  groupedItems :: GroupedItems
  activeId :: "string option"
  showGroupDialog :: bool
  showNameDialog :: bool
  itemToGroup :: "ItemToGroup option"
  groupName :: string

text \<open>The initial values given to \<open>useState\<close>.\<close>

definition DraggableList_init :: state where
  "DraggableList_init =
     \<lparr> items = [\<lparr>id' = ''1'', content = ''Item 1''\<rparr>,
                \<lparr>id' = ''2'', content = ''Item 2''\<rparr>,
                \<lparr>id' = ''3'', content = ''Item 3''\<rparr>,
                \<lparr>id' = ''4'', content = ''Item 4''\<rparr>],
       groupedItems = [],
       activeId = None,
       showGroupDialog = False,
       showNameDialog = False,
       itemToGroup = None,
       groupName = [] \<rparr>"

text \<open>
  The two ways a handler can leave the typed state.
  \<open>UndefinedItem\<close>: \<open>arrayMove\<close> stores \<open>undefined\<close> in the item array; the JavaScript
  does not throw at that point, the next render does, when \<open>visibleItems\<close> reads
  \<open>item.id\<close> of that entry.
  \<open>TypeError\<close>: a state updater queued by the handler throws when React runs it, because
  the value read from the group map is an inherited property and not an array
  (\<open>[...f]\<close> of a function or of the prototype object is not iterable, \<open>f.map\<close> is not a
  function). In both cases the component does not reach a next state, and the model
  stops with the error value.
\<close>

datatype error = UndefinedItem | TypeError

subsection \<open>Array helpers\<close>

text \<open>\<open>Array.prototype.findIndex\<close>: the index of the first element that satisfies the
  predicate, \<open>-1\<close> when there is none.\<close>

fun findIndex :: "('a \<Rightarrow> bool) \<Rightarrow> 'a list \<Rightarrow> int" where
  "findIndex p [] = - 1"
| "findIndex p (x # xs) =
     (if p x then 0
      else (let i = findIndex p xs in if i < 0 then - 1 else i + 1))"

text \<open>\<open>items.findIndex(item => item.id === i)\<close>\<close>

definition indexOfId :: "Item list \<Rightarrow> string \<Rightarrow> int" where
  "indexOfId xs i = findIndex (\<lambda>item. id' item = i) xs"

text \<open>
  Modelled from the spec: \<open>arrayMove\<close> is imported from the drag-and-drop library
  (\<open>@dnd-kit/sortable\<close>) and is not among the sources of the repository. The
  specification describes it as the standard array move: remove from the source index,
  insert at the destination index, shifting the elements in between by one. For indices
  inside the array the definition is exactly that. Outside, it follows the \<open>splice\<close> of
  JavaScript, on which the library's function rests:
  \<^verbatim>\<open>
  function arrayMove(array, from, to) {
    const newArray = array.slice();
    newArray.splice(to < 0 ? newArray.length + to : to, 0, newArray.splice(from, 1)[0]);
    return newArray;
  }
  \<close>
  The arguments of the outer \<open>splice\<close> are evaluated left to right, so the destination
  is computed with the length before the removal. \<open>splice\<close> clamps its start index:
  a negative start counts from the end and stops at 0, a start beyond the end is the
  length. When nothing is removed (\<open>from\<close> out of range), \<open>[0]\<close> of the empty result
  is \<open>undefined\<close> and that is what gets inserted.
\<close>

definition splice_start :: "int \<Rightarrow> int \<Rightarrow> nat" where
  "splice_start len start =
     nat (if start < 0 then max (len + start) 0 else min start len)"

definition arrayMove :: "'a list \<Rightarrow> int \<Rightarrow> int \<Rightarrow> error + 'a list" where
  "arrayMove array from to =
     (let len = int (length array);
          dest = (if to < 0 then len + to else to);
          src = splice_start len from
      in if src < length array
         then (let removed = array ! src;
                   rest = take src array @ drop (Suc src) array;
                   k = splice_start (int (length rest)) dest
               in Inr (take k rest @ [removed] @ drop k rest))
         else Inl UndefinedItem)"

text \<open>\<open>String(n)\<close> of a non-negative integer, as the template literal renders
  \<open>Date.now()\<close>.\<close>

definition digit :: "nat \<Rightarrow> char" where
  "digit d = ''0123456789'' ! d"

fun number_to_string :: "nat \<Rightarrow> string" where
  "number_to_string n =
     (if n < 10 then [digit n] else number_to_string (n div 10) @ [digit (n mod 10)])"

declare number_to_string.simps [simp del]

subsection \<open>The derived list of visible items\<close>

text \<open>
  \<^verbatim>\<open>
  const visibleItems = items.filter((item) =>
    !Object.values(groupedItems).flat().includes(item.id));
  \<close>
\<close>

definition members :: "GroupedItems \<Rightarrow> string list" where
  "members g = concat (map snd g)"

definition visibleItems :: "state \<Rightarrow> Item list" where
  "visibleItems s = filter (\<lambda>item. id' item \<notin> set (members (groupedItems s))) (items s)"

text \<open>\<open>isGrouped={!!groupedItems[item.id]}\<close>, which is also the test
  \<open>if (groupedItems[over.id])\<close> of \<open>handleDragEnd\<close>: an array, even an empty one, is
  truthy, and so is every inherited value.\<close>

definition isGrouped :: "state \<Rightarrow> string \<Rightarrow> bool" where
  "isGrouped s i = (getProperty (groupedItems s) i \<noteq> Undefined)"

subsection \<open>Event handlers\<close>

text \<open>\<open>handleDragStart\<close>: \<open>setActiveId(active.id)\<close>.\<close>

definition handleDragStart :: "state \<Rightarrow> string \<Rightarrow> state" where
  "handleDragStart s active = s\<lparr>activeId := Some active\<rparr>"

text \<open>
  \<open>handleDragEnd\<close>, with \<open>active.id\<close> and \<open>over?.id\<close> (\<open>None\<close> when \<open>over\<close> is null).
  The early \<open>return\<close> on a missing drop target comes before \<open>setActiveId(null)\<close>.
  When \<open>groupedItems[over.id]\<close> is an inherited value the test is true, the
  drop-into-group branch is taken and its updater throws on \<open>[...prev[over.id]]\<close>.
\<close>

definition handleDragEnd :: "state \<Rightarrow> string \<Rightarrow> string option \<Rightarrow> error + state" where
  "handleDragEnd s active over =
     (case over of
        None \<Rightarrow> Inr s
      | Some over_id \<Rightarrow>
          if active \<noteq> over_id then
            (case getProperty (groupedItems s) over_id of
               Members ms \<Rightarrow>
                 Inr (s\<lparr>groupedItems := AList.update over_id (ms @ [active]) (groupedItems s),
                        items := filter (\<lambda>item. id' item \<noteq> active) (items s),
                        activeId := None\<rparr>)
             | Inherited \<Rightarrow> Inl TypeError
             | Undefined \<Rightarrow>
                 Inr (s\<lparr>itemToGroup := Some \<lparr>dragged = active, target = over_id\<rparr>,
                        showGroupDialog := True,
                        activeId := None\<rparr>))
          else
            (let oldIndex = indexOfId (items s) active;
                 newIndex = indexOfId (items s) over_id
             in case arrayMove (items s) oldIndex newIndex of
                  Inl e \<Rightarrow> Inl e
                | Inr moved \<Rightarrow> Inr (s\<lparr>items := moved, activeId := None\<rparr>)))"

text \<open>\<open>handleGroup(action: 'group' | 'cancel')\<close>\<close>

datatype action = Group | Cancel

definition handleGroup :: "state \<Rightarrow> action \<Rightarrow> state" where
  "handleGroup s a =
     (case a of
        Group \<Rightarrow> s\<lparr>showNameDialog := True\<rparr>
      | Cancel \<Rightarrow> s\<lparr>showGroupDialog := False, itemToGroup := None\<rparr>)"

text \<open>The \<open>onClick\<close> of the name dialog's Cancel button: \<open>() => setShowNameDialog(false)\<close>.\<close>

definition cancelNameDialog :: "state \<Rightarrow> state" where
  "cancelNameDialog s = s\<lparr>showNameDialog := False\<rparr>"

text \<open>The \<open>onChange\<close> of the name field: \<open>setGroupName(e.target.value)\<close>.\<close>

definition setGroupName :: "state \<Rightarrow> string \<Rightarrow> state" where
  "setGroupName s v = s\<lparr>groupName := v\<rparr>"

text \<open>\<open>`group-${Date.now()}`\<close>, the clock reading being an argument.\<close>

definition newGroupId :: "nat \<Rightarrow> string" where
  "newGroupId now = ''group-'' @ number_to_string now"

text \<open>
  \<open>handleNameGroup\<close>: the two \<open>setItems\<close> updaters run one after the other, the filter
  first and the append second.
\<close>

definition handleNameGroup :: "state \<Rightarrow> nat \<Rightarrow> state" where
  "handleNameGroup s now =
     (let s1 =
        (case itemToGroup s of
           Some p \<Rightarrow>
             s\<lparr>groupedItems := AList.update (newGroupId now) [dragged p, target p] (groupedItems s),
               items := filter (\<lambda>item. id' item \<notin> set [dragged p, target p]) (items s)
                        @ [\<lparr>id' = newGroupId now, content = groupName s\<rparr>]\<rparr>
         | None \<Rightarrow> s)
      in s1\<lparr>showNameDialog := False, showGroupDialog := False,
            itemToGroup := None, groupName := []\<rparr>)"

text \<open>
  \<open>handleUngroup\<close>: \<open>newGroupedItems[id] || []\<close> is the member list of the group, the
  empty list when the read gives \<open>undefined\<close>, and the inherited value itself when the
  read finds one; on that value \<open>ungroupedItems.map\<close> throws. The \<open>setItems\<close> inside the
  updater of \<open>setGroupedItems\<close> runs once with the items of the same render.
\<close>

definition handleUngroup :: "state \<Rightarrow> string \<Rightarrow> error + state" where
  "handleUngroup s i =
     (let ungroupedItems =
        (case getProperty (groupedItems s) i of Undefined \<Rightarrow> Members [] | v \<Rightarrow> v)
      in case ungroupedItems of
           Members ms \<Rightarrow>
             Inr (s\<lparr>groupedItems := AList.delete i (groupedItems s),
                    items := filter (\<lambda>item. id' item \<noteq> i) (items s)
                             @ map (\<lambda>itemId. \<lparr>id' = itemId, content = ''Item '' @ itemId\<rparr>) ms\<rparr>)
         | _ \<Rightarrow> Inl TypeError)"

subsection \<open>Events of the rendered widget\<close>

text \<open>
  The callbacks the component hands to its collaborators: \<open>onDragStart\<close> and
  \<open>onDragEnd\<close> of the drag context, the buttons of the two dialogs, \<open>onOpenChange\<close> of
  the two dialogs (\<open>setShowGroupDialog\<close> and \<open>setShowNameDialog\<close> themselves), the name
  field, and the Ungroup button of a row. \<open>NameGroup\<close> carries the reading of \<open>Date.now()\<close>.
\<close>

datatype event =
    DragStart string
  | DragEnd string "string option"
  | GroupDialog action
  | GroupDialogOpenChange bool
  | NameDialogCancel
  | NameDialogOpenChange bool
  | GroupNameChange string
  | NameGroup nat
  | Ungroup string

fun step :: "state \<Rightarrow> event \<Rightarrow> error + state" where
  "step s (DragStart a) = Inr (handleDragStart s a)"
| "step s (DragEnd a over) = handleDragEnd s a over"
| "step s (GroupDialog a) = Inr (handleGroup s a)"
| "step s (GroupDialogOpenChange b) = Inr (s\<lparr>showGroupDialog := b\<rparr>)"
| "step s NameDialogCancel = Inr (cancelNameDialog s)"
| "step s (NameDialogOpenChange b) = Inr (s\<lparr>showNameDialog := b\<rparr>)"
| "step s (GroupNameChange v) = Inr (setGroupName s v)"
| "step s (NameGroup now) = Inr (handleNameGroup s now)"
| "step s (Ungroup i) = handleUngroup s i"

text \<open>
  Rows are rendered from \<open>visibleItems\<close>, and a row takes part in dragging only when it is
  not a group: \<open>useSortable({ id, disabled: isGrouped })\<close>, and the drag listeners are
  spread on the row only when \<open>isGrouped\<close> is false. So the \<open>active\<close> id of a drag event is
  the id of a visible item that is not a group key.
\<close>

definition draggable :: "state \<Rightarrow> string \<Rightarrow> bool" where
  "draggable s a = (a \<in> set (map id' (visibleItems s)) \<and> \<not> isGrouped s a)"

text \<open>
  The events the widget can receive in a state. Only the restriction on the dragged row
  is imposed; every other callback is taken as available at any time, with any argument,
  which admits more event sequences than the rendered dialogs and buttons do.
\<close>

fun offered :: "state \<Rightarrow> event \<Rightarrow> bool" where
  "offered s (DragStart a) = draggable s a"
| "offered s (DragEnd a over) = draggable s a"
| "offered s e = True"

text \<open>Running a sequence of events; \<open>None\<close> when an event is not offered or a handler
  leaves the typed state.\<close>

fun run :: "state \<Rightarrow> event list \<Rightarrow> state option" where
  "run s [] = Some s"
| "run s (e # es) =
     (if offered s e
      then (case step s e of Inr s' \<Rightarrow> run s' es | Inl err \<Rightarrow> None)
      else None)"

subsection \<open>Observations used in the statements\<close>

text \<open>The item list after a handler that may fail.\<close>

definition itemsAfter :: "error + state \<Rightarrow> error + Item list" where
  "itemsAfter r = (case r of Inl e \<Rightarrow> Inl e | Inr s \<Rightarrow> Inr (items s))"

text \<open>The keys of the groups that list an id among their members.\<close>

definition groupsContaining :: "GroupedItems \<Rightarrow> string \<Rightarrow> string list" where
  "groupsContaining g a = map fst (filter (\<lambda>(k, ms). a \<in> set ms) g)"

text \<open>The keys of the group map and the ids of the item list.\<close>

definition groupKeys :: "state \<Rightarrow> string set" where
  "groupKeys s = fst ` set (groupedItems s)"

definition itemIds :: "state \<Rightarrow> string set" where
  "itemIds s = id' ` set (items s)"


text \<open>The ids a state refers to: of its items, of the members of its groups and of its
  pending pair.\<close>

definition usedIds :: "state \<Rightarrow> string list" where
  "usedIds s =
     map id' (items s) @ members (groupedItems s)
     @ (case itemToGroup s of None \<Rightarrow> [] | Some p \<Rightarrow> [dragged p, target p])"

text \<open>
  Three properties of a state: every key of the group map is the id of an item of the
  list, the ids of a pending pair are not group keys, and no id in use is the name of an
  inherited property.
\<close>

definition ids_plain :: "state \<Rightarrow> bool" where
  "ids_plain s = (set (usedIds s) \<inter> set objectPrototypeKeys = {})"

definition keys_listed :: "state \<Rightarrow> bool" where
  "keys_listed s = (groupKeys s \<subseteq> itemIds s)"

definition pending_plain :: "state \<Rightarrow> bool" where
  "pending_plain s =
     (case itemToGroup s of
        None \<Rightarrow> True
      | Some p \<Rightarrow> dragged p \<notin> groupKeys s \<and> target p \<notin> groupKeys s)"


text \<open>
  The state after the items 1 and 3 of the initial list have been grouped under the name
  \<open>G1\<close> at clock reading 5; used as a concrete state in the examples.
\<close>

definition grouped_example :: state where
  "grouped_example =
     \<lparr> items = [\<lparr>id' = ''2'', content = ''Item 2''\<rparr>,
                \<lparr>id' = ''4'', content = ''Item 4''\<rparr>,
                \<lparr>id' = newGroupId 5, content = ''G1''\<rparr>],
       groupedItems = [(newGroupId 5, [''1'', ''3''])],
       activeId = None,
       showGroupDialog = False,
       showNameDialog = False,
       itemToGroup = None,
       groupName = [] \<rparr>"


section \<open>Properties\<close>

subsection \<open>Array helpers\<close>

lemma findIndex_range:
  "findIndex p xs = - 1 \<or> (0 \<le> findIndex p xs \<and> findIndex p xs < int (length xs))"
  by (induction xs) (auto simp: Let_def)

lemma arrayMove_same_index:
  assumes "0 \<le> i" "i < int (length xs)"
  shows "arrayMove xs i i = Inr xs"
proof -
  let ?n = "nat i"
  have n: "?n < length xs" using assms by simp
  have src: "splice_start (int (length xs)) i = ?n"
    using assms by (simp add: splice_start_def)
  have len: "length (take ?n xs @ drop (Suc ?n) xs) = length xs - 1"
    using n by simp
  have k: "splice_start (int (length (take ?n xs @ drop (Suc ?n) xs))) i = ?n"
    using assms n unfolding len by (simp add: splice_start_def) 
  have "take ?n (take ?n xs @ drop (Suc ?n) xs) @ [xs ! ?n] @ drop ?n (take ?n xs @ drop (Suc ?n) xs) = xs"
    using n by (simp add: id_take_nth_drop [symmetric] min_absorb2)
  then show ?thesis
    using assms n src k by (simp add: arrayMove_def Let_def del: append.simps)
qed

lemma arrayMove_not_found:
  assumes "xs \<noteq> []"
  shows "arrayMove xs (- 1) (- 1) = Inr xs"
proof -
  have "arrayMove xs (- 1) (- 1) = arrayMove xs (int (length xs) - 1) (int (length xs) - 1)"
    using assms by (cases xs) (simp_all add: arrayMove_def splice_start_def Let_def)
  also have "\<dots> = Inr xs"
    using assms by (intro arrayMove_same_index) simp_all
  finally show ?thesis .
qed

lemma arrayMove_indexOfId:
  assumes "xs \<noteq> []"
  shows "arrayMove xs (indexOfId xs a) (indexOfId xs a) = Inr xs"
  using findIndex_range [of "\<lambda>item. id' item = a" xs] assms
  by (auto simp: indexOfId_def arrayMove_same_index arrayMove_not_found)

lemma arrayMove_empty: "arrayMove [] i j = Inl UndefinedItem"
  by (simp add: arrayMove_def splice_start_def Let_def)


subsection \<open>Property reads on the group map\<close>

lemma getProperty_Members_iff: "getProperty g k = Members ms \<longleftrightarrow> map_of g k = Some ms"
  by (simp add: getProperty_def split: option.splits)

lemma getProperty_Undefined_iff:
  "getProperty g k = Undefined \<longleftrightarrow> map_of g k = None \<and> k \<notin> set objectPrototypeKeys"
  by (simp add: getProperty_def split: option.splits)

lemma getProperty_Inherited_iff:
  "getProperty g k = Inherited \<longleftrightarrow> map_of g k = None \<and> k \<in> set objectPrototypeKeys"
  by (simp add: getProperty_def split: option.splits)

lemma isGrouped_iff:
  "isGrouped s i \<longleftrightarrow> i \<in> groupKeys s \<or> i \<in> set objectPrototypeKeys"
  by (auto simp: isGrouped_def getProperty_Undefined_iff groupKeys_def map_of_eq_None_iff)

lemma newGroupId_not_inherited: "newGroupId n \<notin> set objectPrototypeKeys"
  by (simp add: newGroupId_def objectPrototypeKeys_def)

subsection \<open>The branches of \<open>handleDragEnd\<close>\<close>

lemma handleDragEnd_no_target: "handleDragEnd s a None = Inr s"
  by (simp add: handleDragEnd_def)

lemma handleDragEnd_plain_target:
  assumes "a \<noteq> t" and "\<not> isGrouped s t"
  shows "handleDragEnd s a (Some t) =
         Inr (s\<lparr>itemToGroup := Some \<lparr>dragged = a, target = t\<rparr>,
                showGroupDialog := True, activeId := None\<rparr>)"
  using assms by (simp add: handleDragEnd_def isGrouped_def)

lemma handleDragEnd_group_target:
  assumes "a \<noteq> t" and "map_of (groupedItems s) t = Some ms"
  shows "handleDragEnd s a (Some t) =
         Inr (s\<lparr>groupedItems := AList.update t (ms @ [a]) (groupedItems s),
                items := filter (\<lambda>item. id' item \<noteq> a) (items s),
                activeId := None\<rparr>)"
  using assms by (simp add: handleDragEnd_def getProperty_def)

lemma handleDragEnd_inherited_target:
  assumes "a \<noteq> t" and "getProperty (groupedItems s) t = Inherited"
  shows "handleDragEnd s a (Some t) = Inl TypeError"
  using assms by (simp add: handleDragEnd_def)

lemma handleDragEnd_same_id:
  assumes "items s \<noteq> []"
  shows "handleDragEnd s a (Some a) = Inr (s\<lparr>activeId := None\<rparr>)"
  using assms by (simp add: handleDragEnd_def Let_def arrayMove_indexOfId)

lemma handleDragEnd_same_id_empty:
  assumes "items s = []"
  shows "handleDragEnd s a (Some a) = Inl UndefinedItem"
  using assms by (simp add: handleDragEnd_def Let_def arrayMove_empty)

text \<open>The drag-end events on which the handler does not reach a next state.\<close>

lemma handleDragEnd_isl_iff:
  "isl (handleDragEnd s a (Some t)) \<longleftrightarrow>
     (a \<noteq> t \<and> getProperty (groupedItems s) t = Inherited) \<or> (a = t \<and> items s = [])"
proof (cases "a = t")
  case True
  then show ?thesis
    by (cases "items s = []") (simp_all add: handleDragEnd_same_id handleDragEnd_same_id_empty)
next
  case False
  then show ?thesis
    by (cases "getProperty (groupedItems s) t") (simp_all add: handleDragEnd_def)
qed

lemma handleDragEnd_clears_activeId:
  "handleDragEnd s a (Some t) = Inr s' \<Longrightarrow> activeId s' = None"
  by (auto simp: handleDragEnd_def Let_def split: if_splits property.splits sum.splits)

subsection \<open>The branches of \<open>handleUngroup\<close>\<close>

lemma handleUngroup_group:
  assumes "map_of (groupedItems s) i = Some ms"
  shows "handleUngroup s i =
         Inr (s\<lparr>groupedItems := AList.delete i (groupedItems s),
                items := filter (\<lambda>item. id' item \<noteq> i) (items s)
                         @ map (\<lambda>itemId. \<lparr>id' = itemId, content = ''Item '' @ itemId\<rparr>) ms\<rparr>)"
  using assms by (simp add: handleUngroup_def getProperty_def)

lemma handleUngroup_undefined:
  assumes "\<not> isGrouped s i"
  shows "handleUngroup s i =
         Inr (s\<lparr>groupedItems := AList.delete i (groupedItems s),
                items := filter (\<lambda>item. id' item \<noteq> i) (items s)\<rparr>)"
  using assms by (simp add: handleUngroup_def isGrouped_def)

lemma handleUngroup_inherited:
  assumes "getProperty (groupedItems s) i = Inherited"
  shows "handleUngroup s i = Inl TypeError"
  using assms by (simp add: handleUngroup_def)

subsection \<open>The group map as an association list\<close>


lemma members_update_append:
  "map_of g k = Some ms \<Longrightarrow>
   set (members (AList.update k (ms @ [a]) g)) = insert a (set (members g))"
  by (induction g) (auto simp: members_def split: if_splits)

lemma groupsContaining_absent:
  "a \<notin> set (members g) \<Longrightarrow> groupsContaining g a = []"
  by (induction g) (auto simp: members_def groupsContaining_def)

lemma groupsContaining_update_append:
  "map_of g t = Some ms \<Longrightarrow> a \<notin> set (members g) \<Longrightarrow>
   groupsContaining (AList.update t (ms @ [a]) g) a = [t]"
proof (induction g)
  case Nil
  then show ?case by simp
next
  case (Cons p g)
  obtain k v where p: "p = (k, v)" by (cases p)
  show ?case
  proof (cases "k = t")
    case True
    with Cons.prems p have "v = ms" and "a \<notin> set (members g)"
      by (simp_all add: members_def)
    with True p show ?thesis
      using groupsContaining_absent [of a g] by (simp add: groupsContaining_def)
  next
    case False
    with Cons.prems p have "map_of g t = Some ms" and "a \<notin> set (members g)" and "a \<notin> set v"
      by (simp_all add: members_def)
    with False p Cons.IH show ?thesis by (simp add: groupsContaining_def)
  qed
qed

lemma members_delete_subset:
  "set (members (AList.delete k g)) \<subseteq> set (members g)"
  by (induction g) (auto simp: members_def)

lemma map_of_members:
  "map_of g k = Some ms \<Longrightarrow> set ms \<subseteq> set (members g)"
  by (induction g) (auto simp: members_def split: if_splits)


lemma members_update_subset:
  "set (members (AList.update k v g)) \<subseteq> set (members g) \<union> set v"
  by (induction g) (auto simp: members_def)

lemma members_delete_disjoint:
  "map_of g k = Some ms \<Longrightarrow> distinct (members g) \<Longrightarrow>
   set ms \<inter> set (members (AList.delete k g)) = {}"
proof (induction g)
  case Nil
  then show ?case by simp
next
  case (Cons p g)
  obtain k' v where p: "p = (k', v)" by (cases p)
  show ?case
  proof (cases "k' = k")
    case True
    with Cons.prems p have "v = ms" and "set ms \<inter> set (members g) = {}"
      by (auto simp: members_def)
    then show ?thesis
      using True p members_delete_subset [of k g] by auto
  next
    case False
    with Cons.prems p have m: "map_of g k = Some ms" and d: "distinct (members g)"
      and v: "set v \<inter> set (members g) = {}"
      by (auto simp: members_def)
    from map_of_members [OF m] v have "set ms \<inter> set v = {}" by auto
    with False p Cons.IH [OF m d] show ?thesis
      by (auto simp: members_def)
  qed
qed

lemma handleNameGroup_pending:
  assumes "itemToGroup s = Some p"
  shows "handleNameGroup s now =
           s\<lparr>groupedItems := AList.update (newGroupId now) [dragged p, target p] (groupedItems s),
             items := filter (\<lambda>item. id' item \<notin> set [dragged p, target p]) (items s)
                      @ [\<lparr>id' = newGroupId now, content = groupName s\<rparr>],
             showNameDialog := False, showGroupDialog := False,
             itemToGroup := None, groupName := []\<rparr>"
  using assms by (simp add: handleNameGroup_def)


lemma member_not_visible:
  assumes "map_of (groupedItems s) k = Some ms" and "m \<in> set ms"
  shows "m \<notin> id' ` set (visibleItems s)"
  using map_of_members [OF assms(1)] assms(2) by (auto simp: visibleItems_def)


subsection \<open>Group ids\<close>





subsection \<open>The example states\<close>

lemma run_grouped_example:
  "run DraggableList_init
     [DragEnd ''1'' (Some ''3''), GroupDialog Group, GroupNameChange ''G1'', NameGroup 5]
   = Some grouped_example"
  by (simp add: DraggableList_init_def grouped_example_def draggable_def visibleItems_def
      members_def isGrouped_def getProperty_def objectPrototypeKeys_def handleDragEnd_def
      handleGroup_def setGroupName_def handleNameGroup_def)

lemma newGroupId_not_seed [simp]:
  "newGroupId n \<noteq> [c]" "[c] \<noteq> newGroupId n"
  by (simp_all add: newGroupId_def)

lemma newGroupId_example: "newGroupId 5 = ''group-5''"
  by (simp add: newGroupId_def number_to_string.simps digit_def)



subsection \<open>Invariants of the event handlers\<close>

lemma draggable_not_key: "draggable s a \<Longrightarrow> a \<notin> groupKeys s"
  by (simp add: draggable_def isGrouped_iff)

lemma draggable_not_inherited: "draggable s a \<Longrightarrow> a \<notin> set objectPrototypeKeys"
  by (simp add: draggable_def isGrouped_iff)

lemma draggable_item: "draggable s a \<Longrightarrow> a \<in> itemIds s"
  by (auto simp: draggable_def visibleItems_def itemIds_def)

lemma draggable_items_nonempty: "draggable s a \<Longrightarrow> items s \<noteq> []"
  by (auto simp: draggable_def visibleItems_def)

lemma map_of_Some_key: "map_of (groupedItems s) t = Some ms \<Longrightarrow> t \<in> groupKeys s"
  by (auto simp: groupKeys_def dest: map_of_SomeD intro: rev_image_eqI)

lemma not_grouped_not_key: "\<not> isGrouped s t \<Longrightarrow> t \<notin> groupKeys s"
  by (simp add: isGrouped_iff)

lemma set_usedIds:
  "set (usedIds s) =
     itemIds s \<union> set (members (groupedItems s))
     \<union> (case itemToGroup s of None \<Rightarrow> {} | Some p \<Rightarrow> {dragged p, target p})"
  by (auto simp: usedIds_def itemIds_def split: option.splits)

lemma ids_plain_subset:
  assumes "ids_plain s" and "set (usedIds s') \<subseteq> set (usedIds s) \<union> X"
    and "X \<inter> set objectPrototypeKeys = {}"
  shows "ids_plain s'"
  using assms unfolding ids_plain_def by blast

lemma inv_frame:
  assumes "keys_listed s" "pending_plain s" "ids_plain s"
    and "groupedItems s' = groupedItems s" and "items s' = items s"
    and "itemToGroup s' = itemToGroup s \<or> itemToGroup s' = None"
  shows "keys_listed s' \<and> pending_plain s' \<and> ids_plain s'"
proof -
  have "groupKeys s' = groupKeys s" "itemIds s' = itemIds s"
    using assms(4,5) by (simp_all add: groupKeys_def itemIds_def)
  then have "keys_listed s' \<and> pending_plain s'"
    using assms(1,2,6) by (auto simp: keys_listed_def pending_plain_def split: option.splits)
  moreover have "set (usedIds s') \<subseteq> set (usedIds s)"
  proof (cases "itemToGroup s' = None")
    case True
    with assms(4,5) have "set (usedIds s') = itemIds s \<union> set (members (groupedItems s))"
      by (simp add: usedIds_def itemIds_def)
    then show ?thesis unfolding set_usedIds [of s] by blast
  next
    case False
    with assms(6) have "itemToGroup s' = itemToGroup s" by simp
    with assms(4,5) show ?thesis by (simp add: usedIds_def)
  qed
  then have "ids_plain s'"
    using assms(3) unfolding ids_plain_def by blast
  ultimately show ?thesis by simp
qed

lemma inv_handleDragEnd:
  assumes inv: "keys_listed s" "pending_plain s" "ids_plain s"
    and d: "draggable s a"
    and e: "handleDragEnd s a over = Inr s'"
  shows "keys_listed s' \<and> pending_plain s' \<and> ids_plain s'"
proof (cases over)
  case None
  with e inv show ?thesis by (simp add: handleDragEnd_no_target)
next
  case (Some t)
  show ?thesis
  proof (cases "a = t")
    case True
    with Some e draggable_items_nonempty [OF d] have "s' = s\<lparr>activeId := None\<rparr>"
      by (simp add: handleDragEnd_same_id)
    with inv show ?thesis
      by (intro inv_frame [of s]) simp_all
  next
    case False
    show ?thesis
    proof (cases "getProperty (groupedItems s) t")
      case Undefined
      then have ng: "\<not> isGrouped s t" by (simp add: isGrouped_def)
      with False Some e have s': "s' = s\<lparr>itemToGroup := Some \<lparr>dragged = a, target = t\<rparr>,
                showGroupDialog := True, activeId := None\<rparr>"
        by (simp add: handleDragEnd_plain_target)
      have a: "a \<notin> groupKeys s" by (rule draggable_not_key [OF d])
      have t: "t \<notin> groupKeys s" by (rule not_grouped_not_key [OF ng])
      have eq: "groupKeys s' = groupKeys s" "itemIds s' = itemIds s"
        "groupedItems s' = groupedItems s"
        unfolding s' by (simp_all add: groupKeys_def itemIds_def)
      have p: "itemToGroup s' = Some \<lparr>dragged = a, target = t\<rparr>"
        unfolding s' by simp
      have kp: "keys_listed s' \<and> pending_plain s'"
        using inv(1) a t by (simp add: keys_listed_def pending_plain_def eq p)
      have "set (usedIds s') \<subseteq> set (usedIds s) \<union> {a, t}"
        by (auto simp: set_usedIds eq p)
      moreover have "{a, t} \<inter> set objectPrototypeKeys = {}"
        using draggable_not_inherited [OF d] Undefined
        by (simp add: getProperty_Undefined_iff)
      ultimately have "ids_plain s'"
        by (rule ids_plain_subset [OF inv(3)])
      with kp show ?thesis by simp
    next
      case Inherited
      with False Some e show ?thesis
        by (simp add: handleDragEnd_inherited_target)
    next
      case (Members ms)
      then have m: "map_of (groupedItems s) t = Some ms"
        by (simp add: getProperty_Members_iff)
      with False Some e
      have s': "s' = s\<lparr>groupedItems := AList.update t (ms @ [a]) (groupedItems s),
                items := filter (\<lambda>item. id' item \<noteq> a) (items s),
                activeId := None\<rparr>"
        by (simp add: handleDragEnd_group_target)
      have k: "groupKeys s' = groupKeys s"
        using map_of_Some_key [OF m] unfolding s'
        by (auto simp: groupKeys_def dom_update)
      have i: "itemIds s' = itemIds s - {a}"
        unfolding s' by (auto simp: itemIds_def)
      have p: "itemToGroup s' = itemToGroup s"
        unfolding s' by simp
      have g: "set (members (groupedItems s')) = insert a (set (members (groupedItems s)))"
        unfolding s' using members_update_append [OF m] by simp
      have "a \<notin> groupKeys s" by (rule draggable_not_key [OF d])
      then have kp: "keys_listed s' \<and> pending_plain s'"
        using inv(1,2) by (auto simp: keys_listed_def pending_plain_def k i p split: option.splits)
      have "set (usedIds s') \<subseteq> set (usedIds s) \<union> {}"
        using draggable_item [OF d] by (auto simp: set_usedIds i p g)
      then have "ids_plain s'"
        by (rule ids_plain_subset [OF inv(3)]) simp
      with kp show ?thesis by simp
    qed
  qed
qed

lemma inv_handleNameGroup:
  assumes inv: "keys_listed s" "pending_plain s" "ids_plain s"
  shows "keys_listed (handleNameGroup s now) \<and> pending_plain (handleNameGroup s now)
         \<and> ids_plain (handleNameGroup s now)"
proof (cases "itemToGroup s")
  case None
  then have "handleNameGroup s now =
      s\<lparr>showNameDialog := False, showGroupDialog := False, itemToGroup := None, groupName := []\<rparr>"
    by (simp add: handleNameGroup_def)
  with inv show ?thesis
    by (intro inv_frame [of s]) simp_all
next
  case (Some p)
  let ?s' = "handleNameGroup s now"
  have k: "groupKeys ?s' = insert (newGroupId now) (groupKeys s)"
    by (simp add: handleNameGroup_pending [OF Some] groupKeys_def dom_update)
  have i: "itemIds ?s' = insert (newGroupId now) (itemIds s - {dragged p, target p})"
    by (auto simp: handleNameGroup_pending [OF Some] itemIds_def)
  have n: "itemToGroup ?s' = None"
    by (simp add: handleNameGroup_pending [OF Some])
  have g: "set (members (groupedItems ?s')) \<subseteq>
           set (members (groupedItems s)) \<union> {dragged p, target p}"
    using members_update_subset [of "newGroupId now" "[dragged p, target p]" "groupedItems s"]
    by (simp add: handleNameGroup_pending [OF Some])
  have "dragged p \<notin> groupKeys s" "target p \<notin> groupKeys s"
    using inv(2) Some by (simp_all add: pending_plain_def)
  then have kp: "keys_listed ?s' \<and> pending_plain ?s'"
    using inv(1) by (auto simp: keys_listed_def pending_plain_def k i n)
  have "set (usedIds ?s') \<subseteq> set (usedIds s) \<union> {newGroupId now}"
    using g Some by (auto simp: set_usedIds i n)
  then have "ids_plain ?s'"
    by (rule ids_plain_subset [OF inv(3)]) (simp add: newGroupId_not_inherited)
  with kp show ?thesis by simp
qed

lemma inv_handleUngroup:
  assumes inv: "keys_listed s" "pending_plain s" "ids_plain s"
    and e: "handleUngroup s i = Inr s'"
  shows "keys_listed s' \<and> pending_plain s' \<and> ids_plain s'"
proof -
  obtain ms where s': "s' = s\<lparr>groupedItems := AList.delete i (groupedItems s),
                items := filter (\<lambda>item. id' item \<noteq> i) (items s)
                         @ map (\<lambda>itemId. \<lparr>id' = itemId, content = ''Item '' @ itemId\<rparr>) ms\<rparr>"
    and ms: "set ms \<subseteq> set (members (groupedItems s))"
  proof (cases "getProperty (groupedItems s) i")
    case (Members ms)
    then have m: "map_of (groupedItems s) i = Some ms"
      by (simp add: getProperty_Members_iff)
    from e handleUngroup_group [OF m] have "s' = s\<lparr>groupedItems := AList.delete i (groupedItems s),
                items := filter (\<lambda>item. id' item \<noteq> i) (items s)
                         @ map (\<lambda>itemId. \<lparr>id' = itemId, content = ''Item '' @ itemId\<rparr>) ms\<rparr>"
      by simp
    then show ?thesis using map_of_members [OF m] by (rule that)
  next
    case Inherited
    with e show ?thesis by (simp add: handleUngroup_inherited)
  next
    case Undefined
    then have "\<not> isGrouped s i" by (simp add: isGrouped_def)
    from e handleUngroup_undefined [OF this] have "s' = s\<lparr>groupedItems := AList.delete i (groupedItems s),
                items := filter (\<lambda>item. id' item \<noteq> i) (items s)
                         @ map (\<lambda>itemId. \<lparr>id' = itemId, content = ''Item '' @ itemId\<rparr>) []\<rparr>"
      by simp
    then show ?thesis by (rule that) simp
  qed
  have k: "groupKeys s' \<subseteq> groupKeys s - {i}"
    using dom_delete_subset [of i "groupedItems s"] delete_notin_dom [of i "groupedItems s"]
    unfolding s' by (auto simp: groupKeys_def)
  have it: "itemIds s - {i} \<subseteq> itemIds s'"
    unfolding s' by (auto simp: itemIds_def)
  have it2: "itemIds s' \<subseteq> itemIds s \<union> set ms"
    unfolding s' by (auto simp: itemIds_def)
  have p: "itemToGroup s' = itemToGroup s"
    unfolding s' by simp
  have g: "set (members (groupedItems s')) \<subseteq> set (members (groupedItems s))"
    unfolding s' using members_delete_subset [of i "groupedItems s"] by simp
  have "keys_listed s'"
    using inv(1) k it unfolding keys_listed_def by blast
  moreover have "pending_plain s'"
    using inv(2) k unfolding pending_plain_def p by (auto split: option.splits)
  moreover have "set (usedIds s') \<subseteq> set (usedIds s) \<union> {}"
    using it2 g ms by (auto simp: set_usedIds p)
  then have "ids_plain s'"
    by (rule ids_plain_subset [OF inv(3)]) simp
  ultimately show ?thesis by simp
qed

lemma inv_step:
  assumes inv: "keys_listed s" "pending_plain s" "ids_plain s"
    and o: "offered s e"
    and st: "step s e = Inr s'"
  shows "keys_listed s' \<and> pending_plain s' \<and> ids_plain s'"
proof (cases e)
  case (DragStart a)
  with st inv show ?thesis
    by (intro inv_frame [of s]) (auto simp: handleDragStart_def)
next
  case (DragEnd a over)
  with o st inv show ?thesis
    using inv_handleDragEnd [of s a over s'] by simp
next
  case (GroupDialog a)
  with st inv show ?thesis
    by (intro inv_frame [of s]) (cases a; auto simp: handleGroup_def)+
next
  case (GroupDialogOpenChange b)
  with st inv show ?thesis
    by (intro inv_frame [of s]) auto
next
  case NameDialogCancel
  with st inv show ?thesis
    by (intro inv_frame [of s]) (auto simp: cancelNameDialog_def)
next
  case (NameDialogOpenChange b)
  with st inv show ?thesis
    by (intro inv_frame [of s]) auto
next
  case (GroupNameChange v)
  with st inv show ?thesis
    by (intro inv_frame [of s]) (auto simp: setGroupName_def)
next
  case (NameGroup now)
  with st inv show ?thesis
    using inv_handleNameGroup [of s now] by auto
next
  case (Ungroup i)
  with st inv show ?thesis
    using inv_handleUngroup [of s i s'] by simp
qed

lemma inv_run:
  "run s es = Some s' \<Longrightarrow> keys_listed s \<Longrightarrow> pending_plain s \<Longrightarrow> ids_plain s
     \<Longrightarrow> keys_listed s' \<and> pending_plain s' \<and> ids_plain s'"
proof (induction es arbitrary: s)
  case Nil
  then show ?case by simp
next
  case (Cons e es)
  from Cons.prems(1) obtain s1 where o: "offered s e" and st: "step s e = Inr s1"
    and r: "run s1 es = Some s'"
    by (auto split: if_splits sum.splits)
  from inv_step [OF Cons.prems(2,3,4) o st] Cons.IH [OF r] show ?case by blast
qed

lemma inv_init:
  "keys_listed DraggableList_init" "pending_plain DraggableList_init"
  "ids_plain DraggableList_init"
  by (simp_all add: keys_listed_def pending_plain_def ids_plain_def usedIds_def members_def
      DraggableList_init_def groupKeys_def objectPrototypeKeys_def)




text \<open>
  The restriction of drag events to rows that are not groups matters: were the group row
  of the example state dragged onto item 2 and the pair named at clock reading 6, the key
  of the first group would remain in the group map while its item is filtered out.
\<close>

lemma dragging_a_group_row:
  "\<not> draggable grouped_example (newGroupId 5)
   \<and> handleDragEnd grouped_example (newGroupId 5) (Some ''2'') =
       Inr (grouped_example\<lparr>itemToGroup := Some \<lparr>dragged = newGroupId 5, target = ''2''\<rparr>,
              showGroupDialog := True\<rparr>)
   \<and> newGroupId 5 \<in> groupKeys (handleNameGroup
        (grouped_example\<lparr>itemToGroup := Some \<lparr>dragged = newGroupId 5, target = ''2''\<rparr>,
              showGroupDialog := True\<rparr>) 6)
   \<and> newGroupId 5 \<notin> itemIds (handleNameGroup
        (grouped_example\<lparr>itemToGroup := Some \<lparr>dragged = newGroupId 5, target = ''2''\<rparr>,
              showGroupDialog := True\<rparr>) 6)"
  by (simp add: grouped_example_def draggable_def isGrouped_def getProperty_def
      objectPrototypeKeys_def handleDragEnd_def handleNameGroup_def groupKeys_def
      itemIds_def newGroupId_def number_to_string.simps digit_def)

section \<open>The claims\<close>

subsection \<open>Reordering\<close>

text \<open>
  Claim C1, as stated, fails. Dragging item 1 onto item 3 in the initial state (3 is not a
  group key) leaves the item list as it was, while the array move from index 0 to index 2
  gives the order 2, 3, 1, 4.
\<close>

theorem handleDragEnd_no_array_move_counterexample:
  "''1'' \<noteq> ''3'' \<and> \<not> isGrouped DraggableList_init ''3''
   \<and> itemsAfter (handleDragEnd DraggableList_init ''1'' (Some ''3''))
       = Inr (items DraggableList_init)
   \<and> arrayMove (items DraggableList_init)
         (indexOfId (items DraggableList_init) ''1'')
         (indexOfId (items DraggableList_init) ''3'')
       = Inr [\<lparr>id' = ''2'', content = ''Item 2''\<rparr>, \<lparr>id' = ''3'', content = ''Item 3''\<rparr>,
              \<lparr>id' = ''1'', content = ''Item 1''\<rparr>, \<lparr>id' = ''4'', content = ''Item 4''\<rparr>]
   \<and> itemsAfter (handleDragEnd DraggableList_init ''1'' (Some ''3''))
       \<noteq> arrayMove (items DraggableList_init)
           (indexOfId (items DraggableList_init) ''1'')
           (indexOfId (items DraggableList_init) ''3'')"
  by (simp add: DraggableList_init_def isGrouped_def getProperty_def objectPrototypeKeys_def
      itemsAfter_def handleDragEnd_def arrayMove_def splice_start_def indexOfId_def Let_def)

text \<open>
  Claim C1, amended. When the dragged id differs from the drop target and the target is
  not a group key, the item list after the drag-end is the item list before it: that
  branch records the pair for the confirmation dialog. The array move is applied in the
  branch where the dragged id and the target id are equal, with the index of that id as
  both source and destination.
\<close>

theorem handleDragEnd_items_plain_target:
  "(a \<noteq> t \<and> \<not> isGrouped s t
      \<longrightarrow> itemsAfter (handleDragEnd s a (Some t)) = Inr (items s))
   \<and> itemsAfter (handleDragEnd s a (Some a))
       = arrayMove (items s) (indexOfId (items s) a) (indexOfId (items s) a)"
proof -
  have "itemsAfter (handleDragEnd s a (Some t)) = Inr (items s)"
    if "a \<noteq> t" "\<not> isGrouped s t"
    using that by (simp add: handleDragEnd_plain_target itemsAfter_def)
  moreover have "itemsAfter (handleDragEnd s a (Some a))
       = arrayMove (items s) (indexOfId (items s) a) (indexOfId (items s) a)"
    by (simp add: itemsAfter_def handleDragEnd_def Let_def split: sum.splits)
  ultimately show ?thesis by blast
qed

theorem handleDragEnd_items_plain_target_witness:
  "''1'' \<noteq> ''3'' \<and> \<not> isGrouped DraggableList_init ''3''
   \<and> itemsAfter (handleDragEnd DraggableList_init ''1'' (Some ''3''))
       = Inr (items DraggableList_init)"
  using handleDragEnd_items_plain_target [of "''1''" "''3''" DraggableList_init]
  by (simp add: DraggableList_init_def isGrouped_def getProperty_def objectPrototypeKeys_def)

subsection \<open>Creating a group\<close>




subsection \<open>Ungrouping\<close>

text \<open>
  Claim C3, as stated, fails in its last part: the regenerated label need not differ from
  the original content. Item 1 of the initial list has the content \<open>Item 1\<close>; after it has
  been grouped with item 3 and the group has been ungrouped, the item list holds the
  same item 1 with the content \<open>Item 1\<close>.
\<close>

theorem handleUngroup_label_same_counterexample:
  "run DraggableList_init
     [DragEnd ''1'' (Some ''3''), GroupDialog Group, GroupNameChange ''G1'', NameGroup 5]
     = Some grouped_example
   \<and> map_of (groupedItems grouped_example) (newGroupId 5) = Some [''1'', ''3'']
   \<and> \<lparr>id' = ''1'', content = ''Item 1''\<rparr> \<in> set (items DraggableList_init)
   \<and> itemsAfter (handleUngroup grouped_example (newGroupId 5))
       = Inr [\<lparr>id' = ''2'', content = ''Item 2''\<rparr>, \<lparr>id' = ''4'', content = ''Item 4''\<rparr>,
              \<lparr>id' = ''1'', content = ''Item 1''\<rparr>, \<lparr>id' = ''3'', content = ''Item 3''\<rparr>]"
  by (intro conjI run_grouped_example)
     (simp_all add: grouped_example_def DraggableList_init_def handleUngroup_def
        getProperty_def itemsAfter_def)

text \<open>
  Claim C3, amended. For a group \<open>G\<close> of a group map that lists no id twice among its
  members, \<open>handleUngroup\<close> removes the key \<open>G\<close>, removes the items with id \<open>G\<close> and
  appends one item per member, in the order of the members; every former member id
  reappears as a visible item. The content is not taken from the original: the label of
  each of these items is \<open>Item <id>\<close>, made from the member id, whatever the content of the
  member was before.
\<close>

theorem handleUngroup_restores_members:
  assumes "map_of (groupedItems s) G = Some ms" and "distinct (members (groupedItems s))"
  shows "\<exists>s'. handleUngroup s G = Inr s'
   \<and> G \<notin> groupKeys s'
   \<and> items s' =
       filter (\<lambda>item. id' item \<noteq> G) (items s)
       @ map (\<lambda>m. \<lparr>id' = m, content = ''Item '' @ m\<rparr>) ms
   \<and> (\<forall>m \<in> set ms. \<lparr>id' = m, content = ''Item '' @ m\<rparr> \<in> set (visibleItems s'))"
proof -
  let ?s' = "s\<lparr>groupedItems := AList.delete G (groupedItems s),
                items := filter (\<lambda>item. id' item \<noteq> G) (items s)
                         @ map (\<lambda>itemId. \<lparr>id' = itemId, content = ''Item '' @ itemId\<rparr>) ms\<rparr>"
  have e: "handleUngroup s G = Inr ?s'"
    by (rule handleUngroup_group [OF assms(1)])
  have k: "G \<notin> groupKeys ?s'"
    by (simp add: groupKeys_def delete_notin_dom)
  have i: "items ?s' =
       filter (\<lambda>item. id' item \<noteq> G) (items s)
       @ map (\<lambda>m. \<lparr>id' = m, content = ''Item '' @ m\<rparr>) ms"
    by simp
  have v: "\<forall>m \<in> set ms. \<lparr>id' = m, content = ''Item '' @ m\<rparr> \<in> set (visibleItems ?s')"
    using members_delete_disjoint [OF assms] by (auto simp: visibleItems_def)
  from e k i v show ?thesis by blast
qed

theorem handleUngroup_restores_members_witness:
  "map_of (groupedItems grouped_example) (newGroupId 5) = Some [''1'', ''3'']
   \<and> distinct (members (groupedItems grouped_example))
   \<and> (\<exists>s'. handleUngroup grouped_example (newGroupId 5) = Inr s'
        \<and> newGroupId 5 \<notin> groupKeys s'
        \<and> items s' =
            [\<lparr>id' = ''2'', content = ''Item 2''\<rparr>, \<lparr>id' = ''4'', content = ''Item 4''\<rparr>,
             \<lparr>id' = ''1'', content = ''Item 1''\<rparr>, \<lparr>id' = ''3'', content = ''Item 3''\<rparr>]
        \<and> \<lparr>id' = ''1'', content = ''Item 1''\<rparr> \<in> set (visibleItems s')
        \<and> \<lparr>id' = ''3'', content = ''Item 3''\<rparr> \<in> set (visibleItems s'))"
proof -
  have m: "map_of (groupedItems grouped_example) (newGroupId 5) = Some [''1'', ''3'']"
    by (simp add: grouped_example_def)
  have d: "distinct (members (groupedItems grouped_example))"
    by (simp add: grouped_example_def members_def)
  have i: "filter (\<lambda>item. id' item \<noteq> newGroupId 5) (items grouped_example)
           = [\<lparr>id' = ''2'', content = ''Item 2''\<rparr>, \<lparr>id' = ''4'', content = ''Item 4''\<rparr>]"
    by (simp add: grouped_example_def)
  from handleUngroup_restores_members [OF m d] m d i show ?thesis by auto
qed

subsection \<open>Clearing the dragged id\<close>

text \<open>
  Claim C4, as stated, fails at a drag-end without a drop target: after a drag of item 1
  has started in the initial state, the drag-end with no target returns at the guard
  \<open>if (!over) return;\<close>, and \<open>activeId\<close> is still the id 1.
\<close>

theorem handleDragEnd_no_target_keeps_activeId:
  "handleDragEnd (handleDragStart DraggableList_init ''1'') ''1'' None
     = Inr (DraggableList_init\<lparr>activeId := Some ''1''\<rparr>)
   \<and> activeId (DraggableList_init\<lparr>activeId := Some ''1''\<rparr>) \<noteq> None"
  by (simp add: handleDragEnd_def handleDragStart_def)

text \<open>
  Claim C4, amended. For every drag-end event with a drop target, the state the handler
  reaches has \<open>activeId\<close> cleared, whichever branch is taken (reorder, drop into a group,
  opening the dialog); the handler reaches a state whenever the item list is not empty
  and the target is a group key or not the name of an inherited property. A drag-end
  without a drop target leaves the whole state, \<open>activeId\<close> included, unchanged.
\<close>

theorem handleDragEnd_clears_activeId_with_target:
  "(handleDragEnd s a (Some t) = Inr s' \<longrightarrow> activeId s' = None)
   \<and> (items s \<noteq> [] \<and> (t \<in> groupKeys s \<or> t \<notin> set objectPrototypeKeys)
        \<longrightarrow> \<not> isl (handleDragEnd s a (Some t)))
   \<and> handleDragEnd s a None = Inr s"
proof -
  have "\<not> isl (handleDragEnd s a (Some t))"
    if "items s \<noteq> []" "t \<in> groupKeys s \<or> t \<notin> set objectPrototypeKeys"
    using that
    by (auto simp: handleDragEnd_isl_iff getProperty_Inherited_iff groupKeys_def
        map_of_eq_None_iff)
  then show ?thesis
    using handleDragEnd_clears_activeId [of s a t s'] handleDragEnd_no_target [of s a]
    by blast
qed

theorem handleDragEnd_clears_activeId_with_target_witness:
  "handleDragEnd (handleDragStart DraggableList_init ''1'') ''1'' (Some ''3'')
     = Inr (DraggableList_init\<lparr>itemToGroup := Some \<lparr>dragged = ''1'', target = ''3''\<rparr>,
              showGroupDialog := True\<rparr>)
   \<and> activeId (handleDragStart DraggableList_init ''1'') = Some ''1''
   \<and> activeId (DraggableList_init\<lparr>itemToGroup := Some \<lparr>dragged = ''1'', target = ''3''\<rparr>,
              showGroupDialog := True\<rparr>) = None
   \<and> items (handleDragStart DraggableList_init ''1'') \<noteq> []
   \<and> ''3'' \<notin> set objectPrototypeKeys
   \<and> \<not> isl (handleDragEnd (handleDragStart DraggableList_init ''1'') ''1'' (Some ''3''))"
proof -
  have e: "handleDragEnd (handleDragStart DraggableList_init ''1'') ''1'' (Some ''3'')
     = Inr (DraggableList_init\<lparr>itemToGroup := Some \<lparr>dragged = ''1'', target = ''3''\<rparr>,
              showGroupDialog := True\<rparr>)"
    by (simp add: handleDragEnd_def handleDragStart_def DraggableList_init_def
        getProperty_def objectPrototypeKeys_def)
  have n: "items (handleDragStart DraggableList_init ''1'') \<noteq> []"
    "''3'' \<notin> set objectPrototypeKeys"
    "activeId (handleDragStart DraggableList_init ''1'') = Some ''1''"
    by (simp_all add: handleDragStart_def DraggableList_init_def objectPrototypeKeys_def)
  from handleDragEnd_clears_activeId_with_target
    [of "handleDragStart DraggableList_init ''1''" "''1''" "''3''"
        "DraggableList_init\<lparr>itemToGroup := Some \<lparr>dragged = ''1'', target = ''3''\<rparr>,
              showGroupDialog := True\<rparr>"] e n
  show ?thesis by simp
qed

subsection \<open>Cancelling the name dialog\<close>

text \<open>
  Claim C5 at the Cancel button of the name dialog: after item 1 has been dragged onto
  item 3 and the grouping has been confirmed, cancelling the name dialog leaves the
  pending pair \<open>(1, 3)\<close> in place.
\<close>

theorem cancelNameDialog_keeps_pending:
  "map_option itemToGroup
     (run DraggableList_init [DragEnd ''1'' (Some ''3''), GroupDialog Group, NameDialogCancel])
   = Some (Some \<lparr>dragged = ''1'', target = ''3''\<rparr>)"
  by (simp add: DraggableList_init_def draggable_def visibleItems_def members_def
      isGrouped_def getProperty_def objectPrototypeKeys_def handleDragEnd_def
      handleGroup_def cancelNameDialog_def)

subsection \<open>Dropping into a group\<close>

text \<open>
  Claim C6. A drag-end of \<open>a\<close> onto a different id \<open>t\<close> that is a group key with members
  \<open>ms\<close> succeeds; afterwards the members of \<open>t\<close> are \<open>ms\<close> followed by \<open>a\<close>, no item of the
  list and no visible item has the id \<open>a\<close>, the two dialog flags and the pending pair are
  as before, and, \<open>a\<close> having been in no group before (as every visible row is), \<open>t\<close> is the
  one group that lists \<open>a\<close>.
\<close>

theorem handleDragEnd_into_group:
  assumes "a \<noteq> t" and "map_of (groupedItems s) t = Some ms"
  shows "\<exists>s'. handleDragEnd s a (Some t) = Inr s'
       \<and> map_of (groupedItems s') t = Some (ms @ [a])
       \<and> a \<notin> itemIds s'
       \<and> a \<notin> id' ` set (visibleItems s')
       \<and> showGroupDialog s' = showGroupDialog s
       \<and> showNameDialog s' = showNameDialog s
       \<and> itemToGroup s' = itemToGroup s
       \<and> (a \<notin> set (members (groupedItems s)) \<longrightarrow> groupsContaining (groupedItems s') a = [t])"
proof -
  let ?s' = "s\<lparr>groupedItems := AList.update t (ms @ [a]) (groupedItems s),
                items := filter (\<lambda>item. id' item \<noteq> a) (items s),
                activeId := None\<rparr>"
  have e: "handleDragEnd s a (Some t) = Inr ?s'"
    by (rule handleDragEnd_group_target [OF assms])
  have m: "map_of (groupedItems ?s') t = Some (ms @ [a])"
    by (simp add: update_conv')
  have i: "a \<notin> itemIds ?s'"
    by (auto simp: itemIds_def)
  have v: "a \<notin> id' ` set (visibleItems ?s')"
    by (rule member_not_visible [OF m]) simp
  have g: "a \<notin> set (members (groupedItems s)) \<longrightarrow> groupsContaining (groupedItems ?s') a = [t]"
    using groupsContaining_update_append [OF assms(2)] by simp
  from e m i v g show ?thesis by (intro exI [of _ ?s']) simp
qed


theorem handleDragEnd_into_group_witness:
  "''2'' \<noteq> newGroupId 5
   \<and> map_of (groupedItems grouped_example) (newGroupId 5) = Some [''1'', ''3'']
   \<and> ''2'' \<notin> set (members (groupedItems grouped_example))
   \<and> (\<exists>s'. handleDragEnd grouped_example ''2'' (Some (newGroupId 5)) = Inr s'
          \<and> map_of (groupedItems s') (newGroupId 5) = Some [''1'', ''3'', ''2'']
          \<and> ''2'' \<notin> itemIds s'
          \<and> ''2'' \<notin> id' ` set (visibleItems s')
          \<and> showGroupDialog s' = False
          \<and> itemToGroup s' = None
          \<and> groupsContaining (groupedItems s') ''2'' = [newGroupId 5])"
proof -
  have n: "''2'' \<noteq> newGroupId 5" by simp
  have m: "map_of (groupedItems grouped_example) (newGroupId 5) = Some [''1'', ''3'']"
    by (simp add: grouped_example_def)
  have f: "''2'' \<notin> set (members (groupedItems grouped_example))"
    by (simp add: grouped_example_def members_def)
  have d: "showGroupDialog grouped_example = False" "itemToGroup grouped_example = None"
    by (simp_all add: grouped_example_def)
  from handleDragEnd_into_group [OF n m] f d n m show ?thesis by auto
qed

subsection \<open>Dropping onto a plain item, and declining\<close>

text \<open>
  Claim C7. A drag-end onto a different id that the handler's own test
  \<open>groupedItems[over.id]\<close> does not take for a group changes neither the item list nor
  the group map: it records the pending pair, opens the confirmation dialog and clears
  \<open>activeId\<close>, and nothing else. Declining the confirmation afterwards leaves the item
  list and the group map as they were before the drag-end.
\<close>

theorem handleDragEnd_plain_target_then_decline:
  assumes "a \<noteq> t" and "\<not> isGrouped s t"
  shows "handleDragEnd s a (Some t) =
           Inr (s\<lparr>itemToGroup := Some \<lparr>dragged = a, target = t\<rparr>,
                  showGroupDialog := True, activeId := None\<rparr>)
       \<and> items (handleGroup (s\<lparr>itemToGroup := Some \<lparr>dragged = a, target = t\<rparr>,
                  showGroupDialog := True, activeId := None\<rparr>) Cancel) = items s
       \<and> groupedItems (handleGroup (s\<lparr>itemToGroup := Some \<lparr>dragged = a, target = t\<rparr>,
                  showGroupDialog := True, activeId := None\<rparr>) Cancel) = groupedItems s"
  using assms by (simp add: handleDragEnd_plain_target handleGroup_def)

theorem handleDragEnd_plain_target_then_decline_witness:
  "''1'' \<noteq> ''3'' \<and> \<not> isGrouped DraggableList_init ''3''
   \<and> handleDragEnd DraggableList_init ''1'' (Some ''3'') =
       Inr (DraggableList_init\<lparr>itemToGroup := Some \<lparr>dragged = ''1'', target = ''3''\<rparr>,
              showGroupDialog := True, activeId := None\<rparr>)
   \<and> items (handleGroup (DraggableList_init\<lparr>itemToGroup := Some \<lparr>dragged = ''1'', target = ''3''\<rparr>,
              showGroupDialog := True, activeId := None\<rparr>) Cancel) = items DraggableList_init
   \<and> groupedItems (handleGroup (DraggableList_init\<lparr>itemToGroup := Some \<lparr>dragged = ''1'', target = ''3''\<rparr>,
              showGroupDialog := True, activeId := None\<rparr>) Cancel) = groupedItems DraggableList_init"
proof -
  have n: "''1'' \<noteq> ''3''" "\<not> isGrouped DraggableList_init ''3''"
    by (simp_all add: DraggableList_init_def isGrouped_def getProperty_def
        objectPrototypeKeys_def)
  from handleDragEnd_plain_target_then_decline [OF n] n show ?thesis by simp
qed

subsection \<open>Group keys are items\<close>

text \<open>
  Claim C8. In every state that a sequence of offered events reaches from the initial
  state, every key of the group map is the id of an item of the item list. The dragged
  row of a drag event is a visible row that is not a group, as the component renders
  it; every other event is unrestricted.
\<close>

theorem group_keys_are_items:
  assumes "run DraggableList_init es = Some s"
  shows "\<forall>k \<in> groupKeys s. k \<in> itemIds s"
  using inv_run [OF assms inv_init] by (auto simp: keys_listed_def)


theorem group_keys_are_items_witness:
  "run DraggableList_init
     [DragEnd ''1'' (Some ''3''), GroupDialog Group, GroupNameChange ''G1'', NameGroup 5]
     = Some grouped_example
   \<and> groupKeys grouped_example = {newGroupId 5}
   \<and> newGroupId 5 \<in> itemIds grouped_example"
proof -
  have k: "groupKeys grouped_example = {newGroupId 5}"
    by (simp add: grouped_example_def groupKeys_def)
  from group_keys_are_items [OF run_grouped_example] k run_grouped_example
  show ?thesis by simp
qed

subsection \<open>Drag-end without a target, and onto the dragged row itself\<close>

text \<open>
  Claim C9. A drag-end with no drop target returns the state unchanged. When the item
  list is not empty (a drag needs a row), a drag-end onto the dragged id itself leaves
  the item list as it is (the array move from an index to the same index is the
  identity; only \<open>activeId\<close> is cleared). In every state reached from the initial state,
  every drag-end event of a draggable row whose target is none or the id of an item of
  the list (the drop targets are the rendered rows) yields a state.
\<close>

theorem handleDragEnd_total_noop:
  "handleDragEnd s a None = Inr s
   \<and> (items s \<noteq> [] \<longrightarrow> handleDragEnd s a (Some a) = Inr (s\<lparr>activeId := None\<rparr>))
   \<and> (run DraggableList_init es = Some s \<and> draggable s a
        \<and> (case over of None \<Rightarrow> True | Some t \<Rightarrow> t \<in> itemIds s)
      \<longrightarrow> \<not> isl (handleDragEnd s a over))"
proof -
  have "\<not> isl (handleDragEnd s a over)"
    if r: "run DraggableList_init es = Some s" and d: "draggable s a"
      and o: "case over of None \<Rightarrow> True | Some t \<Rightarrow> t \<in> itemIds s"
  proof (cases over)
    case None
    then show ?thesis by (simp add: handleDragEnd_no_target)
  next
    case (Some t)
    with o have "t \<in> set (usedIds s)" by (simp add: set_usedIds)
    moreover from inv_run [OF r inv_init] have "ids_plain s" by simp
    ultimately have "t \<notin> set objectPrototypeKeys"
      unfolding ids_plain_def by blast
    then have "getProperty (groupedItems s) t \<noteq> Inherited"
      by (simp add: getProperty_Inherited_iff)
    with draggable_items_nonempty [OF d] Some show ?thesis
      by (simp add: handleDragEnd_isl_iff)
  qed
  then show ?thesis
    by (simp add: handleDragEnd_no_target handleDragEnd_same_id)
qed

theorem handleDragEnd_total_noop_witness:
  "items grouped_example \<noteq> []
   \<and> run DraggableList_init
       [DragEnd ''1'' (Some ''3''), GroupDialog Group, GroupNameChange ''G1'', NameGroup 5]
       = Some grouped_example
   \<and> draggable grouped_example ''2''
   \<and> newGroupId 5 \<in> itemIds grouped_example
   \<and> handleDragEnd grouped_example ''2'' None = Inr grouped_example
   \<and> handleDragEnd grouped_example ''2'' (Some ''2'') = Inr (grouped_example\<lparr>activeId := None\<rparr>)
   \<and> \<not> isl (handleDragEnd grouped_example ''2'' (Some (newGroupId 5)))"
proof -
  have n: "items grouped_example \<noteq> []" "draggable grouped_example ''2''"
    "newGroupId 5 \<in> itemIds grouped_example"
    by (simp_all add: grouped_example_def draggable_def visibleItems_def members_def
        isGrouped_def getProperty_def objectPrototypeKeys_def itemIds_def)
  from handleDragEnd_total_noop [of grouped_example "''2''"
      "[DragEnd ''1'' (Some ''3''), GroupDialog Group, GroupNameChange ''G1'', NameGroup 5]"
      "Some (newGroupId 5)"] n run_grouped_example
  show ?thesis by simp
qed

subsection \<open>Ungroup on an id that is not a group\<close>




end
